theory Spec2Isabelle
  imports Main "HOL-Library.Char_ord" "HOL-Library.List_Lexorder" "HOL-Library.AList"
begin

section \<open>JavaScript values as the factory sees them\<close>

text \<open>
  The module \<open>condotti.di\<close> (file \<open>di.js\<close>) works on untyped JavaScript values: the
  configuration is a plain object of plain objects, the cache is a plain object of
  arbitrary values, and every test in the source is a truthiness test, an \<open>in\<close> test or
  a strict comparison. The values are therefore kept as a datatype.

  \<^item> \<open>JObj ps\<close> is a plain object, as an object literal or \<open>JSON.parse\<close> makes them: its
    prototype is \<open>Object.prototype\<close> and \<open>ps\<close> lists its own properties, all of them
    enumerable and writable data properties, in the order \<open>Object.keys\<close> enumerates them.
  \<^item> \<open>JObjectPrototype\<close> is the object \<open>Object.prototype\<close>, \<open>JFun f\<close> the function object
    named \<open>f\<close>, \<open>JArray xs\<close> an array, \<open>JDate v\<close> the object \<open>new Date(Date.parse(v))\<close>.
  \<^item> \<open>JInst f None\<close> is the object \<open>Object.create(f.prototype)\<close> on which the constructor
    \<open>f\<close> has not returned; \<open>JInst f (Some args)\<close> is that object after \<open>f.apply(obj, args)\<close>
    returned.
  \<^item> Numbers are the integers among the doubles and strings are ASCII strings.

  What the language does with a plain object, with \<open>Object.prototype\<close> and with a
  primitive value is written out below. What it does with any other object (its
  properties, its keys, its conversion to a string) is the object's own affair and is
  taken from the environment.
\<close>

datatype jsval =
    JUndefined
  | JNull
  | JBool bool
  | JNum int
  | JStr string
  | JObj "(string \<times> jsval) list"
  | JObjectPrototype
  | JFun string
  | JArray "jsval list"
  | JDate jsval
  | JInst string "jsval list option"

type_synonym props = "(string \<times> jsval) list"

text \<open>
  What the code can throw: the \<open>ReferenceError\<close> of line 87 and the \<open>TypeError\<close> of line 193
  with their messages, a \<open>TypeError\<close> raised by the language itself (\<open>in\<close> on a primitive,
  a property read on \<open>undefined\<close>, \<open>Object.keys\<close> of \<open>undefined\<close>), whatever a collaborator
  (type lookup, constructor, merge, a conversion) throws, and the cycle error of the
  dependency sort.
\<close>

datatype error =
    ReferenceError string
  | TypeError string
  | EngineTypeError
  | Thrown string
  | DependencyCycleError string

text \<open>
  The environment: the collaborators the module consumes through \<open>C\<close>, and the engine's
  part for the objects and conversions that are not written out here.
  \<^item> \<open>namespace\<close> is \<open>C.namespace\<close>, the type lookup.
  \<^item> \<open>prototype_of E f\<close> is the value of \<open>f.prototype\<close> (a function made by \<open>bind\<close> and most
    functions of the language itself have none: it is \<open>undefined\<close>).
  \<^item> \<open>invoke E f this args\<close> is what \<open>f.apply(this, args)\<close> does: \<open>None\<close> when it returns,
    the error when the constructor, or the engine on a list it will not take, throws.
    A constructor is taken to leave the factory alone.
  \<^item> \<open>kind_name\<close> is \<open>getFunctionName(getObjectType(type))\<close>.
  \<^item> \<open>text_of\<close> is the conversion to a string of a value whose conversion is not written
    out in \<open>to_text\<close> (as a property key, as an argument of \<open>Date.parse\<close>), \<open>concat_text\<close> the
    same under \<open>+\<close>; either may throw.
  \<^item> \<open>lookup E v k\<close> is the property \<open>k\<close> of a value \<open>v\<close> that is not a plain object, own
    or inherited (\<open>None\<close> when \<open>k in v\<close> is false); \<open>keys_of E v\<close> is \<open>Object.keys(v)\<close> for
    such a value.
  \<^item> \<open>merge\<close> is \<open>C.lang.merge\<close> on the own properties of \<open>config_\<close>.
  \<^item> \<open>exotic_read\<close> and \<open>exotic_store\<close> are property access on the cache object once
    its prototype is an object other than \<open>Object.prototype\<close> and the plain objects.
\<close>

record env =
  namespace :: "jsval \<Rightarrow> error + jsval"
  prototype_of :: "string \<Rightarrow> jsval"
  invoke :: "string \<Rightarrow> jsval \<Rightarrow> jsval list \<Rightarrow> error option"
  kind_name :: "jsval \<Rightarrow> string"
  text_of :: "jsval \<Rightarrow> error + string"
  concat_text :: "jsval \<Rightarrow> error + string"
  lookup :: "jsval \<Rightarrow> string \<Rightarrow> jsval option"
  keys_of :: "jsval \<Rightarrow> error + string list"
  merge :: "props \<Rightarrow> jsval \<Rightarrow> error option \<times> props"
  exotic_read :: "props \<Rightarrow> jsval \<Rightarrow> string \<Rightarrow> jsval"
  exotic_store :: "props \<Rightarrow> jsval \<Rightarrow> string \<Rightarrow> jsval \<Rightarrow> props \<times> jsval"

text \<open>
  The three properties \<open>config_\<close>, \<open>logger_\<close> and \<open>cache_\<close> of a \<open>DottiFactory\<close> (a name cannot
  end in an underscore here). \<open>config_\<close> is a plain object, given by its own properties;
  the logger is the list of the messages logged; \<open>cache_\<close> starts as the literal \<open>{}\<close> of
  line 57 and is given by its own properties and its prototype, which a store under
  \<open>__proto__\<close> replaces.
\<close>

record factory =
  this_config :: props
  this_logger :: "string list"
  this_cache :: props
  cache_proto :: jsval

definition DottiFactory :: "props \<Rightarrow> factory" where
  "DottiFactory config =
     \<lparr>this_config = config, this_logger = [], this_cache = [], cache_proto = JObjectPrototype\<rparr>"

subsection \<open>Truthiness and property access\<close>

fun truthy :: "jsval \<Rightarrow> bool" where
  "truthy JUndefined = False"
| "truthy JNull = False"
| "truthy (JBool b) = b"
| "truthy (JNum n) = (n \<noteq> 0)"
| "truthy (JStr s) = (s \<noteq> [])"
| "truthy v = True"

fun is_object :: "jsval \<Rightarrow> bool" where
  "is_object JUndefined = False"
| "is_object JNull = False"
| "is_object (JBool b) = False"
| "is_object (JNum n) = False"
| "is_object (JStr s) = False"
| "is_object v = True"

text \<open>
  What every plain object inherits from \<open>Object.prototype\<close>: its twelve properties. Eleven
  are functions; \<open>__proto__\<close> is an accessor, whose getter answers the prototype of the
  object it is read on.
\<close>

definition prototype_methods :: "string list" where
  "prototype_methods =
     [''constructor'', ''toString'', ''toLocaleString'', ''valueOf'', ''hasOwnProperty'',
      ''isPrototypeOf'', ''propertyIsEnumerable'', ''__defineGetter__'', ''__defineSetter__'',
      ''__lookupGetter__'', ''__lookupSetter__'']"

definition inherited :: "string \<Rightarrow> jsval option" where
  "inherited k =
     (if k = ''__proto__'' then Some JObjectPrototype
      else if k = ''constructor'' then Some (JFun ''Object'')
      else if k \<in> set prototype_methods then Some (JFun (''Object.prototype.'' @ k))
      else None)"

text \<open>
  \<open>obj[k]\<close> on a plain object: an own property first, then an inherited one; a property
  that is neither reads as \<open>undefined\<close>.
\<close>

definition read_prop :: "props \<Rightarrow> string \<Rightarrow> jsval" where
  "read_prop ps k =
     (case map_of ps k of
        Some v \<Rightarrow> v
      | None \<Rightarrow> (case inherited k of Some v \<Rightarrow> v | None \<Rightarrow> JUndefined))"

text \<open>
  \<open>v.k\<close> for a value that is not \<open>undefined\<close> or \<open>null\<close> (those throw, see \<open>get_member\<close>).
  \<open>Object.prototype\<close> has its twelve properties and no prototype.
\<close>

fun member :: "env \<Rightarrow> jsval \<Rightarrow> string \<Rightarrow> jsval" where
  "member E (JObj ps) k = read_prop ps k"
| "member E JObjectPrototype k =
     (if k = ''__proto__'' then JNull
      else case inherited k of Some v \<Rightarrow> v | None \<Rightarrow> JUndefined)"
| "member E v k = (case lookup E v k of Some x \<Rightarrow> x | None \<Rightarrow> JUndefined)"

fun get_member :: "env \<Rightarrow> jsval \<Rightarrow> string \<Rightarrow> error + jsval" where
  "get_member E JUndefined k = Inl EngineTypeError"
| "get_member E JNull k = Inl EngineTypeError"
| "get_member E v k = Inr (member E v k)"

text \<open>\<open>k in v\<close>: a \<open>TypeError\<close> unless \<open>v\<close> is an object.\<close>

fun has_property :: "env \<Rightarrow> string \<Rightarrow> jsval \<Rightarrow> error + bool" where
  "has_property E k (JObj ps) = Inr (map_of ps k \<noteq> None \<or> inherited k \<noteq> None)"
| "has_property E k JObjectPrototype = Inr (inherited k \<noteq> None)"
| "has_property E k v = (if is_object v then Inr (lookup E v k \<noteq> None) else Inl EngineTypeError)"

text \<open>
  \<open>Object.keys(v)\<close>: the own keys of a plain object (none of the properties of
  \<open>Object.prototype\<close> is enumerable), a \<open>TypeError\<close> for \<open>undefined\<close> and \<open>null\<close>; for any other
  value the environment's answer (the editions of the language differ on the primitive
  values).
\<close>

fun object_keys :: "env \<Rightarrow> jsval \<Rightarrow> error + string list" where
  "object_keys E (JObj ps) = Inr (map fst ps)"
| "object_keys E JObjectPrototype = Inr []"
| "object_keys E JUndefined = Inl EngineTypeError"
| "object_keys E JNull = Inl EngineTypeError"
| "object_keys E v = keys_of E v"

subsection \<open>Conversion to a string\<close>

definition digit_char :: "nat \<Rightarrow> char" where
  "digit_char d = char_of (48 + d)"

fun show_nat :: "nat \<Rightarrow> string" where
  "show_nat n = (if n < 10 then [digit_char n] else show_nat (n div 10) @ [digit_char (n mod 10)])"

declare show_nat.simps [simp del]

definition show_int :: "int \<Rightarrow> string" where
  "show_int i = (if i < 0 then CHR ''-'' # show_nat (nat (- i)) else show_nat (nat i))"

text \<open>
  \<open>ToString\<close>. The primitive values convert as written; an integer up to \<open>2^53\<close> prints
  its decimal digits, and a plain object with no \<open>toString\<close> and no \<open>valueOf\<close> of its own
  prints as \<open>[object Object]\<close>, as \<open>Object.prototype\<close> does. Every other value (a larger
  number, an object that brings its own conversion, an array, a function, a date, an
  instance) is converted by \<open>conv\<close>.
\<close>

fun to_text :: "(jsval \<Rightarrow> error + string) \<Rightarrow> jsval \<Rightarrow> error + string" where
  "to_text conv JUndefined = Inr ''undefined''"
| "to_text conv JNull = Inr ''null''"
| "to_text conv (JBool b) = Inr (if b then ''true'' else ''false'')"
| "to_text conv (JNum n) =
     (if - 9007199254740992 \<le> n \<and> n \<le> 9007199254740992 then Inr (show_int n) else conv (JNum n))"
| "to_text conv (JStr s) = Inr s"
| "to_text conv (JObj ps) =
     (if map_of ps ''toString'' = None \<and> map_of ps ''valueOf'' = None then Inr ''[object Object]''
      else conv (JObj ps))"
| "to_text conv JObjectPrototype = Inr ''[object Object]''"
| "to_text conv v = conv v"

definition to_str :: "env \<Rightarrow> jsval \<Rightarrow> error + string" where
  "to_str E v = to_text (text_of E) v"

definition to_concat :: "env \<Rightarrow> jsval \<Rightarrow> error + string" where
  "to_concat E v = to_text (concat_text E) v"

subsection \<open>The cache object\<close>

text \<open>
  \<open>this.cache_[k]\<close>: an own property first, then the prototype chain. The chain is written
  out for the prototypes the cache can be given from plain data: \<open>Object.prototype\<close> (the
  prototype the literal of line 57 starts with), a plain object, whose own properties
  come before those of \<open>Object.prototype\<close>, and \<open>null\<close>, the empty chain. The getter of
  \<open>__proto__\<close> answers the prototype of the object the read started on, the cache. For any
  other prototype the read is the environment's.
\<close>

definition read_cache :: "env \<Rightarrow> factory \<Rightarrow> string \<Rightarrow> jsval" where
  "read_cache E st k =
     (case map_of (this_cache st) k of
        Some v \<Rightarrow> v
      | None \<Rightarrow>
          (case cache_proto st of
             JObjectPrototype \<Rightarrow> (case inherited k of Some v \<Rightarrow> v | None \<Rightarrow> JUndefined)
           | JObj ps \<Rightarrow>
               (case map_of ps k of
                  Some v \<Rightarrow> v
                | None \<Rightarrow>
                    if k = ''__proto__'' then JObj ps
                    else (case inherited k of Some v \<Rightarrow> v | None \<Rightarrow> JUndefined))
           | JNull \<Rightarrow> JUndefined
           | proto \<Rightarrow> exotic_read E (this_cache st) proto k))"

text \<open>
  The setter of \<open>__proto__\<close>: an object or \<open>null\<close> becomes the prototype of the cache, any
  other value is ignored. (The setter throws for an object whose own chain leads back to
  the cache; such an object can only be made from the cache itself, which the factory
  hands to nobody.)
\<close>

definition set_prototype :: "factory \<Rightarrow> jsval \<Rightarrow> factory" where
  "set_prototype st v = (if is_object v \<or> v = JNull then st\<lparr>cache_proto := v\<rparr> else st)"

text \<open>
  \<open>this.cache_[k] = v\<close>. An own property is overwritten. Without one, the store adds an
  own property to the cache, unless the first property the chain has under the name is
  an accessor: that is \<open>__proto__\<close> of \<open>Object.prototype\<close>, whose setter then runs. With a
  prototype that is not written out above the store is the environment's.
\<close>

definition store_cache :: "env \<Rightarrow> factory \<Rightarrow> string \<Rightarrow> jsval \<Rightarrow> factory" where
  "store_cache E st k v =
     (if map_of (this_cache st) k \<noteq> None then st\<lparr>this_cache := AList.update k v (this_cache st)\<rparr>
      else case cache_proto st of
        JObjectPrototype \<Rightarrow>
          if k = ''__proto__'' then set_prototype st v
          else st\<lparr>this_cache := AList.update k v (this_cache st)\<rparr>
      | JObj ps \<Rightarrow>
          if k = ''__proto__'' \<and> map_of ps k = None then set_prototype st v
          else st\<lparr>this_cache := AList.update k v (this_cache st)\<rparr>
      | JNull \<Rightarrow> st\<lparr>this_cache := AList.update k v (this_cache st)\<rparr>
      | proto \<Rightarrow>
          (case exotic_store E (this_cache st) proto k v of
             (own, proto') \<Rightarrow> st\<lparr>this_cache := own, cache_proto := proto'\<rparr>))"

subsection \<open>\<open>parseInt\<close>, \<open>sort\<close> and array stores\<close>

definition is_ws :: "char \<Rightarrow> bool" where
  "is_ws c = (of_char c \<in> {9, 10, 11, 12, 13, 32 :: nat})"

definition digit_val :: "char \<Rightarrow> nat option" where
  "digit_val c =
     (let n = (of_char c :: nat) in
      if 48 \<le> n \<and> n \<le> 57 then Some (n - 48)
      else if 97 \<le> n \<and> n \<le> 122 then Some (n - 87)
      else if 65 \<le> n \<and> n \<le> 90 then Some (n - 55)
      else None)"

definition is_digit :: "nat \<Rightarrow> char \<Rightarrow> bool" where
  "is_digit radix c = (case digit_val c of None \<Rightarrow> False | Some d \<Rightarrow> d < radix)"

definition digits_value :: "nat \<Rightarrow> string \<Rightarrow> nat" where
  "digits_value radix ds = foldl (\<lambda>acc c. acc * radix + the (digit_val c)) 0 ds"

text \<open>
  \<open>parseInt(key)\<close> with no radix: leading white space, a sign, a \<open>0x\<close> prefix, the longest
  prefix of digits; \<open>None\<close> is \<open>NaN\<close>.
\<close>

definition parseInt :: "string \<Rightarrow> int option" where
  "parseInt s =
     (let s1 = dropWhile is_ws s;
          neg = (s1 \<noteq> [] \<and> hd s1 = CHR ''-'');
          s2 = (if s1 \<noteq> [] \<and> (hd s1 = CHR ''-'' \<or> hd s1 = CHR ''+'') then tl s1 else s1);
          hex = (take 2 s2 = ''0x'' \<or> take 2 s2 = ''0X'');
          radix = (if hex then 16 else 10);
          s3 = (if hex then drop 2 s2 else s2);
          ds = takeWhile (is_digit radix) s3
      in if ds = [] then None
         else Some ((if neg then - 1 else 1) * int (digits_value radix ds)))"

text \<open>
  \<open>params[index] = v\<close> on an array. A number in \<open>0 .. 2^32 - 2\<close> (below \<open>4294967295\<close>) is an
  array index: the store sets that element and grows the array when needed, and the
  holes it leaves read as \<open>undefined\<close>. \<open>NaN\<close>, a negative number or a larger one names an
  ordinary property, which \<open>apply\<close> never reads.
\<close>

definition array_index :: "int option \<Rightarrow> nat option" where
  "array_index idx =
     (case idx of
        None \<Rightarrow> None
      | Some i \<Rightarrow> if 0 \<le> i \<and> i < 4294967295 then Some (nat i) else None)"

definition array_set :: "jsval list \<Rightarrow> int option \<Rightarrow> jsval \<Rightarrow> jsval list" where
  "array_set a idx v =
     (case array_index idx of
        None \<Rightarrow> a
      | Some n \<Rightarrow>
          if n < length a then a[n := v]
          else a @ replicate (n - length a) JUndefined @ [v])"

section \<open>The object builder: \<open>create_\<close> (here \<open>create_object\<close>)\<close>

text \<open>
  The body of the \<open>forEach\<close> callback of \<open>create_\<close> (lines 169 to 179) for one slot. The
  reference of line 172 is used as a property key, the value of line 174 is handed to
  \<open>Date.parse\<close>: both are converted to a string first.
\<close>

definition bind_param :: "env \<Rightarrow> factory \<Rightarrow> jsval \<Rightarrow> error + jsval" where
  "bind_param E st param =
     (if \<not> truthy param then Inr JUndefined
      else case has_property E ''reference'' param of
        Inl e \<Rightarrow> Inl e
      | Inr True \<Rightarrow>
          (case to_str E (member E param ''reference'') of
             Inl e \<Rightarrow> Inl e
           | Inr key \<Rightarrow> Inr (read_cache E st key))
      | Inr False \<Rightarrow>
          if member E param ''type'' = JStr ''Date'' then
            (case to_str E (member E param ''value'') of
               Inl e \<Rightarrow> Inl e
             | Inr text \<Rightarrow> Inr (JDate (member E param ''value'')))
          else if truthy (member E param ''value'') then Inr (member E param ''value'')
          else Inr JUndefined)"

text \<open>The \<open>forEach\<close> over the sorted keys, filling the array \<open>params\<close>.\<close>

fun bind_params :: "env \<Rightarrow> factory \<Rightarrow> jsval \<Rightarrow> string list \<Rightarrow> jsval list \<Rightarrow> error + jsval list" where
  "bind_params E st ps [] a = Inr a"
| "bind_params E st ps (key # keys) a =
     (case bind_param E st (member E ps key) of
        Inl e \<Rightarrow> Inl e
      | Inr v \<Rightarrow> bind_params E st ps keys (array_set a (parseInt key) v))"

text \<open>
  Lines 164 to 180: the array \<open>params\<close>, filled slot by slot in the order of the sorted
  keys. \<open>sort()\<close> with no comparator orders strings by their code units, which is the
  lexicographic order of \<open>string\<close>.
\<close>

definition argument_list :: "env \<Rightarrow> factory \<Rightarrow> jsval \<Rightarrow> error + jsval list" where
  "argument_list E st params =
     (case object_keys E params of
        Inl e \<Rightarrow> Inl e
      | Inr keys \<Rightarrow> bind_params E st params (sort keys) [])"

text \<open>The message of lines 185 to 190, a concatenation.\<close>

definition type_error_message :: "env \<Rightarrow> jsval \<Rightarrow> string \<Rightarrow> jsval \<Rightarrow> error + string" where
  "type_error_message E tp name type =
     (case to_concat E tp of
        Inl e \<Rightarrow> Inl e
      | Inr path \<Rightarrow>
          Inr (''Constructor of the type '' @ path @ '' of the required object '' @ name @
               '' is expected to be a function, but '' @ kind_name E type @ '' is found.''))"

text \<open>
  \<open>Object.create(f.prototype)\<close>: a new object when \<open>f.prototype\<close> is an object or \<open>null\<close>, a
  \<open>TypeError\<close> otherwise.
\<close>

definition object_create :: "env \<Rightarrow> string \<Rightarrow> error + jsval" where
  "object_create E f =
     (if is_object (prototype_of E f) \<or> prototype_of E f = JNull then Inr (JInst f None)
      else Inl EngineTypeError)"

text \<open>
  \<open>create_(name)\<close>. Line 196 stores \<open>Object.create(type.prototype)\<close> in the cache, line 197
  reads the entry back and runs the constructor on it. When the constructor returns,
  the object it has initialised is the one that was stored: the state is then that of
  the store of line 196 with the object as the constructor left it.
\<close>

definition create_object :: "env \<Rightarrow> string \<Rightarrow> factory \<Rightarrow> error option \<times> factory" where
  "create_object E name st =
     (let config = read_prop (this_config st) name in
      case get_member E config ''type'' of
        Inl e \<Rightarrow> (Some e, st)
      | Inr tp \<Rightarrow>
      (case namespace E tp of
        Inl e \<Rightarrow> (Some e, st)
      | Inr type \<Rightarrow>
      (case argument_list E st (member E config ''params'') of
        Inl e \<Rightarrow> (Some e, st)
      | Inr params \<Rightarrow>
      (case type of
        JFun f \<Rightarrow>
          (case object_create E f of
             Inl e \<Rightarrow> (Some e, st)
           | Inr fresh \<Rightarrow>
               (let st1 = store_cache E st name fresh;
                    this = read_cache E st1 name in
                case invoke E f this params of
                  Some e \<Rightarrow> (Some e, st1)
                | None \<Rightarrow>
                    (None, if this = fresh then store_cache E st name (JInst f (Some params))
                           else st1)))
      | _ \<Rightarrow>
          (case type_error_message E tp name type of
             Inl e \<Rightarrow> (Some e, st)
           | Inr message \<Rightarrow>
               (Some (TypeError message), st\<lparr>this_logger := this_logger st @ [message]\<rparr>))))))"

section \<open>The dependency sort\<close>

text \<open>
  The callback \<open>next\<close> that \<open>get\<close> hands to the sort (lines 78 to 99): no dependencies for
  a name whose cache entry is truthy, the \<open>ReferenceError\<close> for a name with no truthy
  descriptor, otherwise the \<open>reference\<close> values of the slots that have one, in the order
  \<open>Object.keys\<close> lists the slots. The sort takes what it is given as names, that is as
  property keys, so the values are converted as they are handed over.
\<close>

fun reference_slots :: "env \<Rightarrow> jsval \<Rightarrow> string list \<Rightarrow> error + string list" where
  "reference_slots E params [] = Inr []"
| "reference_slots E params (k # ks) =
     (case has_property E ''reference'' (member E params k) of
        Inl e \<Rightarrow> Inl e
      | Inr b \<Rightarrow>
          (case reference_slots E params ks of
             Inl e \<Rightarrow> Inl e
           | Inr rest \<Rightarrow> Inr (if b then k # rest else rest)))"

fun reference_names :: "env \<Rightarrow> jsval \<Rightarrow> string list \<Rightarrow> error + string list" where
  "reference_names E params [] = Inr []"
| "reference_names E params (k # ks) =
     (case to_str E (member E (member E params k) ''reference'') of
        Inl e \<Rightarrow> Inl e
      | Inr n \<Rightarrow>
          (case reference_names E params ks of
             Inl e \<Rightarrow> Inl e
           | Inr rest \<Rightarrow> Inr (n # rest)))"

definition missing_message :: "string \<Rightarrow> string" where
  "missing_message current = ''Configuration for object '' @ current @ '' does not exist''"

definition next_deps :: "env \<Rightarrow> factory \<Rightarrow> string \<Rightarrow> error + string list" where
  "next_deps E st current =
     (if truthy (read_cache E st current) then Inr []
      else if \<not> truthy (read_prop (this_config st) current) then
        Inl (ReferenceError (missing_message current))
      else
        (let params = member E (read_prop (this_config st) current) ''params'' in
         case object_keys E params of
           Inl e \<Rightarrow> Inl e
         | Inr keys \<Rightarrow>
             (case reference_slots E params keys of
                Inl e \<Rightarrow> Inl e
              | Inr slots \<Rightarrow> reference_names E params slots)))"

text \<open>
  Modelled from the spec: \<open>C.algorithm.sorting.topology(name, next)\<close> is a function of the
  module \<open>condotti.algorithm\<close>, which is not among the source files. Section 4.2 of the
  specification describes it: a depth-first traversal from the root that asks \<open>next\<close> for
  the dependencies of each name it visits, visits them in the order given, then appends
  the name to the order unless it is there already; a name met again while its own
  visit is in progress is a dependency cycle, reported with that name. The sort knows
  the cache only through \<open>next\<close>, so a cached name is a name with no dependencies and
  stands in the order like any other (line 104 of \<open>get\<close> skips it). The first argument
  bounds the depth of the traversal (\<open>None\<close>: the bound was reached); \<open>get\<close> below passes
  a bound that is never reached.
\<close>

fun visit :: "nat \<Rightarrow> (string \<Rightarrow> error + string list) \<Rightarrow> string list \<Rightarrow> string list \<Rightarrow> string
    \<Rightarrow> (error + string list) option"
  and visit_each :: "nat \<Rightarrow> (string \<Rightarrow> error + string list) \<Rightarrow> string list \<Rightarrow> string list
    \<Rightarrow> string list \<Rightarrow> (error + string list) option" where
  "visit 0 nxt stack order n = None"
| "visit (Suc k) nxt stack order n =
     (if n \<in> set stack then Some (Inl (DependencyCycleError n))
      else if n \<in> set order then Some (Inr order)
      else case nxt n of
        Inl e \<Rightarrow> Some (Inl e)
      | Inr deps \<Rightarrow>
          (case visit_each k nxt (n # stack) order deps of
             Some (Inr order') \<Rightarrow> Some (Inr (order' @ [n]))
           | r \<Rightarrow> r))"
| "visit_each k nxt stack order [] = Some (Inr order)"
| "visit_each k nxt stack order (d # ds) =
     (case visit k nxt stack order d of
        Some (Inr order') \<Rightarrow> visit_each k nxt stack order' ds
      | r \<Rightarrow> r)"

text \<open>
  Modelled from the spec: the entry point \<open>topology(name, next)\<close> of the same missing module,
  the traversal started at the root with nothing in progress and an empty order.
\<close>

definition topology :: "nat \<Rightarrow> string \<Rightarrow> (string \<Rightarrow> error + string list)
    \<Rightarrow> (error + string list) option" where
  "topology fuel root nxt = visit fuel nxt [] [] root"




section \<open>The factory: \<open>get\<close>, \<open>set\<close>, \<open>configure\<close>\<close>

text \<open>The \<open>forEach\<close> of \<open>get\<close> (lines 103 to 107); a throw of \<open>create_\<close> ends it.\<close>

fun create_missing :: "env \<Rightarrow> string list \<Rightarrow> factory \<Rightarrow> error option \<times> factory" where
  "create_missing E [] st = (None, st)"
| "create_missing E (dependency # rest) st =
     (if \<not> truthy (read_cache E st dependency) then
        (case create_object E dependency st of
           (Some e, st') \<Rightarrow> (Some e, st')
         | (None, st') \<Rightarrow> create_missing E rest st')
      else create_missing E rest st)"

text \<open>
  \<open>get(name)\<close>. The result is \<open>None\<close> only if the sort reached its depth bound, which
  \<open>get_returns\<close> below excludes: only a name for which the registry reads a truthy value
  has dependencies, and those are the names of its own properties and of the twelve
  properties of \<open>Object.prototype\<close>.
\<close>

definition get :: "env \<Rightarrow> string \<Rightarrow> factory \<Rightarrow> ((error + jsval) \<times> factory) option" where
  "get E name st =
     (if \<not> truthy (read_cache E st name) then
        (case topology (Suc (length (this_config st) + 12)) name (next_deps E st) of
           None \<Rightarrow> None
         | Some (Inl e) \<Rightarrow> Some (Inl e, st)
         | Some (Inr dependencies) \<Rightarrow>
             (case create_missing E dependencies st of
                (Some e, st') \<Rightarrow> Some (Inl e, st')
              | (None, st') \<Rightarrow> Some (Inr (read_cache E st' name), st')))
      else Some (Inr (read_cache E st name), st))"


text \<open>\<open>configure(config)\<close> (lines 139 to 141): the merge rewrites \<open>config_\<close> in place.\<close>

definition configure :: "env \<Rightarrow> jsval \<Rightarrow> factory \<Rightarrow> error option \<times> factory" where
  "configure E config st =
     (case merge E (this_config st) config of
        (r, merged) \<Rightarrow> (r, st\<lparr>this_config := merged\<rparr>))"

section \<open>A sample environment and sample registries\<close>

text \<open>
  A type lookup that knows two constructors, of which \<open>Broken\<close> throws, and answers a
  fresh namespace object for any other path; objects other than plain ones with no
  properties of their own; a merge that lets the entries of the new registry shadow the
  old ones.
\<close>

definition sample_env :: env where
  "sample_env =
     \<lparr>namespace = (\<lambda>v. if v = JStr ''app.Service'' then Inr (JFun ''Service'')
                       else if v = JStr ''app.Broken'' then Inr (JFun ''Broken'')
                       else Inr (JObj [])),
      prototype_of = (\<lambda>f. JObj []),
      invoke = (\<lambda>f this args. if f = ''Broken'' then Some (Thrown ''constructor failed'') else None),
      kind_name = (\<lambda>v. ''Object''),
      text_of = (\<lambda>v. Inr ''[object Object]''),
      concat_text = (\<lambda>v. Inr ''[object Object]''),
      lookup = (\<lambda>v k. None),
      keys_of = (\<lambda>v. Inr []),
      merge = (\<lambda>target source. case source of JObj ps \<Rightarrow> (None, ps @ target) | _ \<Rightarrow> (None, target)),
      exotic_read = (\<lambda>own proto k. JUndefined),
      exotic_store = (\<lambda>own proto k v. (own, proto))\<rparr>"

definition descriptor :: "string \<Rightarrow> props \<Rightarrow> jsval" where
  "descriptor path params = JObj [(''type'', JStr path), (''params'', JObj params)]"

definition reference_to :: "string \<Rightarrow> jsval" where
  "reference_to target = JObj [(''reference'', JStr target)]"

definition plain_value :: "jsval \<Rightarrow> jsval" where
  "plain_value v = JObj [(''value'', v)]"

definition one_object :: "props \<Rightarrow> factory" where
  "one_object slots = DottiFactory [(''objectA'', descriptor ''app.Service'' slots)]"

definition three_slots :: props where
  "three_slots = [(''2'', plain_value (JStr ''two'')), (''10'', plain_value (JStr ''ten'')),
                  (''1'', plain_value (JStr ''one''))]"

definition gapped_slots :: props where
  "gapped_slots = [(''1'', plain_value (JStr ''one'')), (''3'', reference_to ''objectB'')]"

definition built_factory :: factory where
  "built_factory =
     \<lparr>this_config = [(''X'', descriptor ''app.Service'' [])],
      this_logger = [],
      this_cache = [(''X'', JInst ''Service'' (Some []))],
      cache_proto = JObjectPrototype\<rparr>"







section \<open>Reading and writing the cache\<close>


lemma inherited_names: "inherited k \<noteq> None \<Longrightarrow> k \<in> set (''__proto__'' # prototype_methods)"
  by (auto simp: inherited_def prototype_methods_def split: if_splits)

lemma read_cache_own: "map_of (this_cache st) k = Some v \<Longrightarrow> read_cache E st k = v"
  by (simp add: read_cache_def)

lemma read_cache_plain:
  "cache_proto st = JObjectPrototype \<Longrightarrow> read_cache E st k = read_prop (this_cache st) k"
  by (simp add: read_cache_def read_prop_def split: option.splits)

lemma store_cache_ordinary:
  assumes "k \<noteq> ''__proto__''" and "cache_proto st = JObjectPrototype"
  shows "store_cache E st k v = st\<lparr>this_cache := AList.update k v (this_cache st)\<rparr>"
  using assms by (simp add: store_cache_def)

lemma read_after_store:
  assumes "k \<noteq> ''__proto__''" and "cache_proto st = JObjectPrototype"
  shows "read_cache E (store_cache E st k v) k = v"
  using assms by (simp add: store_cache_ordinary read_cache_def update_conv')

lemma store_then_read:
  assumes "name \<noteq> ''__proto__''" and "cache_proto st = JObjectPrototype"
  shows "store_cache E st name v = st\<lparr>this_cache := AList.update name v (this_cache st)\<rparr>"
    and "read_cache E (store_cache E st name v) name = v"
  using assms by (rule store_cache_ordinary, rule read_after_store)


lemma get_cached:
  "truthy (read_cache E st name) \<Longrightarrow> get E name st = Some (Inr (read_cache E st name), st)"
  by (simp add: get_def)

section \<open>Plain values and references in a slot\<close>

text \<open>
  C3. A slot \<open>{ value: v }\<close> with no \<open>reference\<close> and no \<open>Date\<close> tag binds \<open>v\<close> itself only when
  \<open>v\<close> is truthy: line 175 tests \<open>param.value\<close> for truthiness, and line 178 binds
  \<open>undefined\<close> for \<open>0\<close>, \<open>false\<close>, the empty string, \<open>null\<close> and \<open>undefined\<close>.
\<close>

theorem plain_value_bound:
  assumes "map_of ps ''reference'' = None" and "read_prop ps ''type'' \<noteq> JStr ''Date''"
  shows "bind_param E st (JObj ps) =
           Inr (if truthy (read_prop ps ''value'') then read_prop ps ''value'' else JUndefined)"
  using assms by (simp add: bind_param_def inherited_def prototype_methods_def)

theorem plain_value_bound_witness:
  "bind_param sample_env (DottiFactory []) (plain_value (JStr ''text'')) = Inr (JStr ''text'')"
proof -
  have a: "map_of [(''value'', JStr ''text'')] ''reference'' = None" by simp
  have b: "read_prop [(''value'', JStr ''text'')] ''type'' \<noteq> JStr ''Date''"
    by code_simp
  have c: "read_prop [(''value'', JStr ''text'')] ''value'' = JStr ''text''"
    by code_simp
  from plain_value_bound [OF a b, of sample_env "DottiFactory []"] show ?thesis
    by (simp add: plain_value_def c)
qed

theorem plain_value_zero_dropped:
  "bind_param sample_env (DottiFactory []) (plain_value (JNum 0)) = Inr JUndefined \<and>
   bind_param sample_env (DottiFactory []) (plain_value (JNum 0)) \<noteq> Inr (JNum 0)"
  by code_simp

section \<open>The argument list\<close>

subsection \<open>Array stores\<close>

lemma array_set_length:
  "array_index idx = Some n \<Longrightarrow> length (array_set a idx v) = max (length a) (Suc n)"
  by (auto simp: array_set_def)

lemma array_set_nth:
  "array_index idx = Some n \<Longrightarrow> j < length (array_set a idx v) \<Longrightarrow>
   array_set a idx v ! j = (if j = n then v else if j < length a then a ! j else JUndefined)"
  by (auto simp: array_set_def nth_append nth_list_update)

lemma bind_params_filled:
  fixes ix :: "string \<Rightarrow> nat" and val :: "string \<Rightarrow> jsval"
  assumes "\<And>k. k \<in> set ks \<Longrightarrow> array_index (parseInt k) = Some (ix k)"
    and "\<And>k. k \<in> set ks \<Longrightarrow> bind_param E st (member E params k) = Inr (val k)"
    and "inj_on ix (set ks)"
  shows "\<exists>a'. bind_params E st params ks a = Inr a' \<and>
           length a' = Max (insert (length a) ((\<lambda>k. Suc (ix k)) ` set ks)) \<and>
           (\<forall>k\<in>set ks. ix k < length a' \<and> a' ! ix k = val k) \<and>
           (\<forall>j<length a'. j \<notin> ix ` set ks \<longrightarrow> a' ! j = (if j < length a then a ! j else JUndefined))"
  using assms
proof (induction ks arbitrary: a)
  case Nil
  then show ?case by simp
next
  case (Cons k ks)
  let ?a1 = "array_set a (parseInt k) (val k)"
  have ik: "array_index (parseInt k) = Some (ix k)" using Cons.prems(1) by simp
  have l1: "length ?a1 = max (length a) (Suc (ix k))" using ik by (rule array_set_length)
  from Cons.IH [of ?a1] Cons.prems
  obtain a' where r: "bind_params E st params ks ?a1 = Inr a'"
    and len: "length a' = Max (insert (length ?a1) ((\<lambda>k. Suc (ix k)) ` set ks))"
    and hit: "\<forall>k\<in>set ks. ix k < length a' \<and> a' ! ix k = val k"
    and miss: "\<forall>j<length a'. j \<notin> ix ` set ks \<longrightarrow> a' ! j = (if j < length ?a1 then ?a1 ! j else JUndefined)"
    by (auto simp: inj_on_def)
  have le: "length ?a1 \<le> length a'" using len by simp
  have step: "bind_params E st params (k # ks) a = Inr a'"
    using r Cons.prems(2) [of k] by simp
  have len': "length a' = Max (insert (length a) ((\<lambda>k. Suc (ix k)) ` set (k # ks)))"
  proof -
    have "Max (insert (max (length a) (Suc (ix k))) ((\<lambda>k. Suc (ix k)) ` set ks))
        = Max (insert (length a) (insert (Suc (ix k)) ((\<lambda>k. Suc (ix k)) ` set ks)))"
      by (cases "ks = []") (simp_all add: max.assoc)
    then show ?thesis using len l1 by simp
  qed
  have hitk: "ix k < length a' \<and> a' ! ix k = val k"
  proof (cases "k \<in> set ks")
    case True
    then show ?thesis using hit by simp
  next
    case False
    then have "ix k \<notin> ix ` set ks" using Cons.prems(3) by (auto simp: inj_on_def)
    moreover have "ix k < length ?a1" using l1 by simp
    ultimately show ?thesis using miss le array_set_nth [OF ik, of "ix k" a "val k"] by auto
  qed
  have miss': "\<forall>j<length a'. j \<notin> ix ` set (k # ks) \<longrightarrow> a' ! j = (if j < length a then a ! j else JUndefined)"
  proof (intro allI impI)
    fix j assume j: "j < length a'" and n: "j \<notin> ix ` set (k # ks)"
    then have a: "a' ! j = (if j < length ?a1 then ?a1 ! j else JUndefined)" using miss by simp
    show "a' ! j = (if j < length a then a ! j else JUndefined)"
    proof (cases "j < length ?a1")
      case True
      then show ?thesis using a n array_set_nth [OF ik True] by simp
    next
      case False
      then have "\<not> j < length a" using l1 by simp
      then show ?thesis using a False by simp
    qed
  qed
  show ?case using step len' hit hitk miss' by auto
qed

lemma array_index_Some: "array_index idx = Some n \<Longrightarrow> idx = Some (int n)"
  by (auto simp: array_index_def split: option.splits if_splits)

lemma argument_list_filled:
  fixes ix :: "string \<Rightarrow> nat" and val :: "string \<Rightarrow> jsval"
  assumes "\<And>k. k \<in> fst ` set ps \<Longrightarrow> array_index (parseInt k) = Some (ix k)"
    and "\<And>k. k \<in> fst ` set ps \<Longrightarrow> bind_param E st (read_prop ps k) = Inr (val k)"
    and "inj_on ix (fst ` set ps)"
  shows "\<exists>args. argument_list E st (JObj ps) = Inr args \<and>
           length args = Max (insert 0 ((\<lambda>k. Suc (ix k)) ` fst ` set ps)) \<and>
           (\<forall>k\<in>fst ` set ps. ix k < length args \<and> args ! ix k = val k) \<and>
           (\<forall>j<length args. j \<notin> ix ` fst ` set ps \<longrightarrow> args ! j = JUndefined)"
proof -
  have s: "set (sort (map fst ps)) = fst ` set ps" by simp
  from bind_params_filled [of "sort (map fst ps)" ix E st "JObj ps" val "[]"] assms
  show ?thesis unfolding argument_list_def s by simp
qed

lemma bind_params_any_order:
  fixes ix :: "string \<Rightarrow> nat" and val :: "string \<Rightarrow> jsval"
  assumes a: "\<And>k. k \<in> K \<Longrightarrow> array_index (parseInt k) = Some (ix k)"
    and b: "\<And>k. k \<in> K \<Longrightarrow> bind_param E st (member E params k) = Inr (val k)"
    and c: "inj_on ix K"
    and ks: "set ks = K" and ks': "set ks' = K"
  shows "bind_params E st params ks [] = bind_params E st params ks' []"
proof -
  have "\<exists>a'. bind_params E st params ks [] = Inr a' \<and>
           length a' = Max (insert (length ([] :: jsval list)) ((\<lambda>k. Suc (ix k)) ` set ks)) \<and>
           (\<forall>k\<in>set ks. ix k < length a' \<and> a' ! ix k = val k) \<and>
           (\<forall>j<length a'. j \<notin> ix ` set ks \<longrightarrow>
              a' ! j = (if j < length ([] :: jsval list) then [] ! j else JUndefined))"
    by (rule bind_params_filled) (simp_all add: a b c ks)
  then obtain a1 where r1: "bind_params E st params ks [] = Inr a1"
    and l1: "length a1 = Max (insert 0 ((\<lambda>k. Suc (ix k)) ` K))"
    and h1: "\<forall>k\<in>K. ix k < length a1 \<and> a1 ! ix k = val k"
    and m1: "\<forall>j<length a1. j \<notin> ix ` K \<longrightarrow> a1 ! j = JUndefined"
    unfolding ks by auto
  have "\<exists>a'. bind_params E st params ks' [] = Inr a' \<and>
           length a' = Max (insert (length ([] :: jsval list)) ((\<lambda>k. Suc (ix k)) ` set ks')) \<and>
           (\<forall>k\<in>set ks'. ix k < length a' \<and> a' ! ix k = val k) \<and>
           (\<forall>j<length a'. j \<notin> ix ` set ks' \<longrightarrow>
              a' ! j = (if j < length ([] :: jsval list) then [] ! j else JUndefined))"
    by (rule bind_params_filled) (simp_all add: a b c ks')
  then obtain a2 where r2: "bind_params E st params ks' [] = Inr a2"
    and l2: "length a2 = Max (insert 0 ((\<lambda>k. Suc (ix k)) ` K))"
    and h2: "\<forall>k\<in>K. ix k < length a2 \<and> a2 ! ix k = val k"
    and m2: "\<forall>j<length a2. j \<notin> ix ` K \<longrightarrow> a2 ! j = JUndefined"
    unfolding ks' by auto
  have "a1 = a2"
  proof (rule nth_equalityI)
    show "length a1 = length a2" using l1 l2 by simp
  next
    fix j assume j: "j < length a1"
    then have j2: "j < length a2" using l1 l2 by simp
    show "a1 ! j = a2 ! j"
    proof (cases "j \<in> ix ` K")
      case True
      then obtain k where "k \<in> K" "j = ix k" by auto
      with h1 h2 show ?thesis by simp
    next
      case False
      with m1 m2 j j2 show ?thesis by simp
    qed
  qed
  with r1 r2 show ?thesis by simp
qed

subsection \<open>Decimal slot keys\<close>

lemma of_char_digit_char: "d < 10 \<Longrightarrow> (of_char (digit_char d) :: nat) = 48 + d"
  by (simp add: digit_char_def)

lemma digit_val_digit_char: "d < 10 \<Longrightarrow> digit_val (digit_char d) = Some d"
  by (simp add: digit_val_def of_char_digit_char)

lemma is_digit_digit_char: "d < 10 \<Longrightarrow> is_digit 10 (digit_char d)"
  by (simp add: is_digit_def digit_val_digit_char)

lemma digit_char_plain:
  assumes "d < 10"
  shows "\<not> is_ws (digit_char d)" and "digit_char d \<noteq> CHR ''-''" and "digit_char d \<noteq> CHR ''+''"
    and "digit_char d \<noteq> CHR ''x''" and "digit_char d \<noteq> CHR ''X''"
proof -
  have e: "(of_char (digit_char d) :: nat) = 48 + d" using assms by (rule of_char_digit_char)
  show "\<not> is_ws (digit_char d)" using assms by (simp add: is_ws_def e)
  show "digit_char d \<noteq> CHR ''-''"
  proof
    assume "digit_char d = CHR ''-''"
    then have "(of_char (digit_char d) :: nat) = of_char CHR ''-''" by simp
    then show False using e by simp
  qed
  show "digit_char d \<noteq> CHR ''+''"
  proof
    assume "digit_char d = CHR ''+''"
    then have "(of_char (digit_char d) :: nat) = of_char CHR ''+''" by simp
    then show False using e by simp
  qed
  show "digit_char d \<noteq> CHR ''x''"
  proof
    assume "digit_char d = CHR ''x''"
    then have "(of_char (digit_char d) :: nat) = of_char CHR ''x''" by simp
    then show False using e assms by simp
  qed
  show "digit_char d \<noteq> CHR ''X''"
  proof
    assume "digit_char d = CHR ''X''"
    then have "(of_char (digit_char d) :: nat) = of_char CHR ''X''" by simp
    then show False using e assms by simp
  qed
qed

lemma show_nat_digits: "show_nat n \<noteq> [] \<and> (\<forall>c\<in>set (show_nat n). \<exists>d<10. c = digit_char d)"
proof (induction n rule: show_nat.induct)
  case (1 n)
  show ?case
  proof (cases "n < 10")
    case True
    then show ?thesis by (subst (1 2) show_nat.simps) auto
  next
    case False
    have "\<exists>d<10. digit_char (n mod 10) = digit_char d"
      by (rule exI [of _ "n mod 10"]) simp
    with False 1 show ?thesis by (subst (1 2) show_nat.simps) auto
  qed
qed

lemma digits_value_snoc:
  "digits_value r (ds @ [c]) = digits_value r ds * r + the (digit_val c)"
  by (simp add: digits_value_def)

lemma digits_value_show_nat: "digits_value 10 (show_nat n) = n"
proof (induction n rule: show_nat.induct)
  case (1 n)
  show ?case
  proof (cases "n < 10")
    case True
    then show ?thesis
      by (subst show_nat.simps) (simp add: digits_value_def digit_val_digit_char)
  next
    case False
    have "n mod 10 < 10" by simp
    then have "the (digit_val (digit_char (n mod 10))) = n mod 10"
      by (simp add: digit_val_digit_char)
    with False 1 show ?thesis
      by (subst show_nat.simps) (simp add: digits_value_snoc)
  qed
qed

lemma parseInt_show_nat: "parseInt (show_nat n) = Some (int n)"
proof -
  let ?s = "show_nat n"
  from show_nat_digits [of n] have ne: "?s \<noteq> []"
    and dg: "\<forall>c\<in>set ?s. \<exists>d<10. c = digit_char d" by simp_all
  from ne have hd: "hd ?s \<in> set ?s" by simp
  with dg obtain d where d: "d < 10" "hd ?s = digit_char d" by blast
  have ws: "dropWhile is_ws ?s = ?s"
    using ne d digit_char_plain(1) [OF d(1)] by (cases ?s) simp_all
  have sign: "hd ?s \<noteq> CHR ''-''" "hd ?s \<noteq> CHR ''+''"
    unfolding d(2) by (rule digit_char_plain [OF d(1)])+
  have sub: "set (take 2 ?s) \<subseteq> set ?s" by (rule set_take_subset)
  have nohex1: "take 2 ?s \<noteq> ''0x''"
  proof
    assume "take 2 ?s = ''0x''"
    then have "CHR ''x'' \<in> set (take 2 ?s)" by simp
    with sub have "CHR ''x'' \<in> set ?s" by (rule subsetD)
    with dg obtain e where e: "e < 10" "CHR ''x'' = digit_char e" by blast
    from digit_char_plain(4) [OF e(1)] e(2) show False by simp
  qed
  have nohex2: "take 2 ?s \<noteq> ''0X''"
  proof
    assume "take 2 ?s = ''0X''"
    then have "CHR ''X'' \<in> set (take 2 ?s)" by simp
    with sub have "CHR ''X'' \<in> set ?s" by (rule subsetD)
    with dg obtain e where e: "e < 10" "CHR ''X'' = digit_char e" by blast
    from digit_char_plain(5) [OF e(1)] e(2) show False by simp
  qed
  have tw: "takeWhile (is_digit 10) ?s = ?s"
    using dg is_digit_digit_char by (auto simp: takeWhile_eq_all_conv)
  show ?thesis
    unfolding parseInt_def Let_def ws
    using sign nohex1 nohex2 ne by (simp add: tw digits_value_show_nat)
qed

lemma array_index_show_nat: "n < 4294967295 \<Longrightarrow> array_index (parseInt (show_nat n)) = Some n"
proof -
  assume "n < 4294967295"
  then have "int n < 4294967295" by linarith
  then show ?thesis unfolding parseInt_show_nat array_index_def by simp
qed

lemma show_nat_inj: "show_nat m = show_nat n \<Longrightarrow> m = n"
proof -
  assume "show_nat m = show_nat n"
  then have "parseInt (show_nat m) = parseInt (show_nat n)" by (rule arg_cong)
  then have "Some (int m) = Some (int n)" by (simp only: parseInt_show_nat)
  then show ?thesis by simp
qed

subsection \<open>Slots and positions\<close>

lemma argument_list_by_number:
  assumes idx: "\<forall>k \<in> fst ` set ps. array_index (parseInt k) \<noteq> None"
    and inj: "inj_on (\<lambda>k. array_index (parseInt k)) (fst ` set ps)"
    and ok: "\<forall>k \<in> fst ` set ps. \<exists>v. bind_param E st (read_prop ps k) = Inr v"
  shows "\<exists>args. argument_list E st (JObj ps) = Inr args \<and>
     (\<forall>k \<in> fst ` set ps. \<exists>m. array_index (parseInt k) = Some m \<and> m < length args \<and>
          bind_param E st (read_prop ps k) = Inr (args ! m)) \<and>
     (\<forall>k \<in> fst ` set ps. \<forall>k' \<in> fst ` set ps. \<forall>m n.
          parseInt k = Some (int m) \<and> parseInt k' = Some (int n) \<and> m < n \<longrightarrow>
          n < length args \<and> bind_param E st (read_prop ps k) = Inr (args ! m) \<and>
          bind_param E st (read_prop ps k') = Inr (args ! n)) \<and>
     (\<forall>ks. set ks = fst ` set ps \<longrightarrow> bind_params E st (JObj ps) ks [] = Inr args)"
proof -
  from idx have "\<forall>k \<in> fst ` set ps. \<exists>i. array_index (parseInt k) = Some i" by auto
  then obtain ix where a': "\<forall>k \<in> fst ` set ps. array_index (parseInt k) = Some (ix k)"
    by (rule bchoice [THEN exE])
  from ok obtain val where b': "\<forall>k \<in> fst ` set ps. bind_param E st (read_prop ps k) = Inr (val k)"
    by (rule bchoice [THEN exE])
  have a: "\<And>k. k \<in> fst ` set ps \<Longrightarrow> array_index (parseInt k) = Some (ix k)"
    using a' by blast
  have b: "\<And>k. k \<in> fst ` set ps \<Longrightarrow> bind_param E st (read_prop ps k) = Inr (val k)"
    using b' by blast
  have c: "inj_on ix (fst ` set ps)"
  proof (rule inj_onI)
    fix x y assume "x \<in> fst ` set ps" "y \<in> fst ` set ps" "ix x = ix y"
    then have e: "array_index (parseInt x) = array_index (parseInt y)" using a by simp
    show "x = y"
      by (rule inj_onD [OF inj e]) fact+
  qed
  have p: "\<And>k. k \<in> fst ` set ps \<Longrightarrow> parseInt k = Some (int (ix k))"
    using a array_index_Some by blast
  from argument_list_filled [of ps ix E st val, OF a b c]
  obtain args where r: "argument_list E st (JObj ps) = Inr args"
    and hit: "\<forall>k\<in>fst ` set ps. ix k < length args \<and> args ! ix k = val k"
    by blast
  have one: "\<forall>k \<in> fst ` set ps. \<exists>m. array_index (parseInt k) = Some m \<and> m < length args \<and>
          bind_param E st (read_prop ps k) = Inr (args ! m)"
  proof (intro ballI)
    fix k assume k: "k \<in> fst ` set ps"
    from bspec [OF hit k] a [OF k] b [OF k]
    show "\<exists>m. array_index (parseInt k) = Some m \<and> m < length args \<and>
          bind_param E st (read_prop ps k) = Inr (args ! m)"
      by (intro exI [of _ "ix k"]) simp
  qed
  have two: "\<forall>k \<in> fst ` set ps. \<forall>k' \<in> fst ` set ps. \<forall>m n.
          parseInt k = Some (int m) \<and> parseInt k' = Some (int n) \<and> m < n \<longrightarrow>
          n < length args \<and> bind_param E st (read_prop ps k) = Inr (args ! m) \<and>
          bind_param E st (read_prop ps k') = Inr (args ! n)"
  proof (intro ballI allI impI)
    fix k k' m n
    assume k: "k \<in> fst ` set ps" and k': "k' \<in> fst ` set ps"
      and h: "parseInt k = Some (int m) \<and> parseInt k' = Some (int n) \<and> m < n"
    from h p [OF k] p [OF k'] have "m = ix k" "n = ix k'" by simp_all
    with bspec [OF hit k] bspec [OF hit k'] show "n < length args \<and> bind_param E st (read_prop ps k) = Inr (args ! m) \<and>
          bind_param E st (read_prop ps k') = Inr (args ! n)"
      using b [OF k] b [OF k'] by simp
  qed
  have three: "\<forall>ks. set ks = fst ` set ps \<longrightarrow> bind_params E st (JObj ps) ks [] = Inr args"
  proof (intro allI impI)
    fix ks assume ks: "set ks = fst ` set ps"
    have "bind_params E st (JObj ps) ks [] = bind_params E st (JObj ps) (sort (map fst ps)) []"
      by (rule bind_params_any_order [where ix = ix and val = val and K = "fst ` set ps"])
         (simp_all add: a b c ks)
    with r show "bind_params E st (JObj ps) ks [] = Inr args"
      by (simp add: argument_list_def)
  qed
  from r one two three show ?thesis by (intro exI [of _ args] conjI)
qed

lemma argument_list_one_based:
  assumes keys: "fst ` set ps = show_nat ` S"
    and ne: "S \<noteq> {}"
    and bound: "\<forall>n\<in>S. n < 4294967295"
    and ok: "\<forall>n\<in>S. \<exists>v. bind_param E st (read_prop ps (show_nat n)) = Inr v"
  shows "\<exists>args. argument_list E st (JObj ps) = Inr args \<and> length args = Max S + 1 \<and>
     (\<forall>j<length args. Inr (args ! j) =
        (if j \<in> S then bind_param E st (read_prop ps (show_nat j)) else Inr JUndefined)) \<and>
     (\<forall>n. S = {1..n} \<longrightarrow> length args = n + 1 \<and> args ! 0 = JUndefined)"
proof -
  define ix where "ix k = nat (the (parseInt k))" for k
  have ixs: "ix (show_nat n) = n" for n by (simp add: ix_def parseInt_show_nat)
  have inj: "inj_on show_nat S" by (rule inj_onI) (rule show_nat_inj)
  have "finite (show_nat ` S)" unfolding keys [symmetric] by simp
  then have fin: "finite S" using inj by (rule finite_imageD)
  from ok obtain val where v: "\<forall>n\<in>S. bind_param E st (read_prop ps (show_nat n)) = Inr (val n)"
    by (rule bchoice [THEN exE])
  have a: "\<And>k. k \<in> fst ` set ps \<Longrightarrow> array_index (parseInt k) = Some (ix k)"
  proof -
    fix k assume "k \<in> fst ` set ps"
    with keys obtain n where n: "n \<in> S" "k = show_nat n" by auto
    with bound have "n < 4294967295" by simp
    then show "array_index (parseInt k) = Some (ix k)"
      unfolding n(2) ixs by (rule array_index_show_nat)
  qed
  define slot where "slot k = val (ix k)" for k
  have b: "\<And>k. k \<in> fst ` set ps \<Longrightarrow> bind_param E st (read_prop ps k) = Inr (slot k)"
  proof -
    fix k assume "k \<in> fst ` set ps"
    with keys obtain n where n: "n \<in> S" "k = show_nat n" by auto
    then show "bind_param E st (read_prop ps k) = Inr (slot k)"
      unfolding n(2) slot_def ixs using v by simp
  qed
  have c: "inj_on ix (fst ` set ps)"
    unfolding keys by (rule inj_onI) (auto simp: ixs)
  have img: "ix ` fst ` set ps = S" unfolding keys by (auto simp: ixs image_iff)
  have img2: "(\<lambda>k. Suc (ix k)) ` fst ` set ps = Suc ` S"
    unfolding keys by (auto simp: ixs image_iff)
  have "\<exists>args. argument_list E st (JObj ps) = Inr args \<and>
           length args = Max (insert 0 ((\<lambda>k. Suc (ix k)) ` fst ` set ps)) \<and>
           (\<forall>k\<in>fst ` set ps. ix k < length args \<and> args ! ix k = slot k) \<and>
           (\<forall>j<length args. j \<notin> ix ` fst ` set ps \<longrightarrow> args ! j = JUndefined)"
    by (rule argument_list_filled) (rule a, assumption, rule b, assumption, rule c)
  then obtain args where r: "argument_list E st (JObj ps) = Inr args"
    and len: "length args = Max (insert 0 ((\<lambda>k. Suc (ix k)) ` fst ` set ps))"
    and hit: "\<forall>k\<in>fst ` set ps. ix k < length args \<and> args ! ix k = slot k"
    and miss: "\<forall>j<length args. j \<notin> ix ` fst ` set ps \<longrightarrow> args ! j = JUndefined"
    by (elim exE conjE)
  have "Max (Suc ` S) = Suc (Max S)"
    using fin ne by (simp add: mono_Max_commute [of Suc, symmetric] mono_def)
  then have len': "length args = Max S + 1"
    using len fin ne unfolding img2 by simp
  have hit': "n < length args \<and> args ! n = val n" if "n \<in> S" for n
  proof -
    from that keys have "show_nat n \<in> fst ` set ps" by simp
    from bspec [OF hit this] show ?thesis by (simp add: ixs slot_def)
  qed
  have filled: "\<forall>j<length args. Inr (args ! j) =
        (if j \<in> S then bind_param E st (read_prop ps (show_nat j)) else Inr JUndefined)"
  proof (intro allI impI)
    fix j assume j: "j < length args"
    show "Inr (args ! j) =
        (if j \<in> S then bind_param E st (read_prop ps (show_nat j)) else Inr JUndefined)"
    proof (cases "j \<in> S")
      case True
      with hit' [OF True] v show ?thesis by simp
    next
      case False
      with miss j img show ?thesis by simp
    qed
  qed
  have range: "\<forall>n. S = {1..n} \<longrightarrow> length args = n + 1 \<and> args ! 0 = JUndefined"
  proof (intro allI impI)
    fix n assume s: "S = {1..n}"
    with ne have n: "1 \<le> n" by simp
    then have "Max S = n" unfolding s by (intro Max_eqI) auto
    moreover have "0 \<notin> S" unfolding s by simp
    moreover have "0 < length args" using len' by simp
    ultimately show "length args = n + 1 \<and> args ! 0 = JUndefined"
      using len' miss img by simp
  qed
  from r len' filled range show ?thesis by (intro exI [of _ args] conjI)
qed

subsection \<open>The constructor call\<close>

lemma create_invokes:
  assumes "read_prop (this_config st) name = JObj d"
    and "namespace E (read_prop d ''type'') = Inr (JFun f)"
    and "object_create E f = Inr (JInst f None)"
    and "argument_list E st (read_prop d ''params'') = Inr args"
  shows "fst (create_object E name st) =
           invoke E f (read_cache E (store_cache E st name (JInst f None)) name) args"
  using assms by (simp add: create_object_def Let_def split: option.splits)

lemma bind_reference:
  assumes "map_of s ''reference'' = Some r" and "to_str E r = Inr target"
  shows "bind_param E st (JObj s) = Inr (read_cache E st target)"
  using assms by (simp add: bind_param_def read_prop_def)

lemma parse_slots:
  "parseInt ''2'' = Some 2" "parseInt ''10'' = Some 10" "parseInt ''1'' = Some 1"
  by code_simp+

lemma slot_positions:
  "array_index (parseInt ''2'') = Some 2" "array_index (parseInt ''10'') = Some 10"
  "array_index (parseInt ''1'') = Some 1"
  by (simp_all add: parse_slots array_index_def)

lemma show_small: "show_nat (Suc 0) = ''1''" "show_nat 1 = ''1''" "show_nat 3 = ''3''"
  by code_simp+

lemma one_object_reads:
  "read_prop (this_config (one_object slots)) ''objectA'' =
     JObj [(''type'', JStr ''app.Service''), (''params'', JObj slots)]"
  "namespace sample_env (read_prop [(''type'', JStr ''app.Service''), (''params'', JObj slots)] ''type'')
     = Inr (JFun ''Service'')"
  "object_create sample_env ''Service'' = Inr (JInst ''Service'' None)"
  "read_prop [(''type'', JStr ''app.Service''), (''params'', JObj slots)] ''params'' = JObj slots"
  "read_cache sample_env (store_cache sample_env (one_object slots) ''objectA'' v) ''objectA'' = v"
  by (simp_all add: one_object_def DottiFactory_def descriptor_def read_prop_def sample_env_def
      read_cache_def store_cache_def object_create_def)

text \<open>
  C1. The \<open>forEach\<close> of line 164 visits the keys in string order (\<open>1, 10, 2\<close>), but line 166
  turns each key into a number and every store of lines 170 to 178 goes to that index of
  \<open>params\<close>, the array that line 197 hands to the constructor. So when the slot keys are
  numerals of distinct array indices, no slot throws and the type is a function with a
  prototype to create the object from, \<open>create_\<close> ends as the constructor does on a list of
  arguments in which the value of each slot stands at the position its key denotes, and
  the value of a slot with a smaller number stands before that of a slot with a larger
  one: the argument list is in numeric order. It is the list that binding the slots in
  any other order of the keys gives, the numeric order \<open>1, 2, 10\<close> among them.
\<close>

theorem slots_bound_by_number:
  assumes desc: "read_prop (this_config st) name = JObj d"
    and type: "namespace E (read_prop d ''type'') = Inr (JFun f)"
    and fresh: "object_create E f = Inr (JInst f None)"
    and slots: "read_prop d ''params'' = JObj ps"
    and idx: "\<forall>k \<in> fst ` set ps. array_index (parseInt k) \<noteq> None"
    and inj: "inj_on (\<lambda>k. array_index (parseInt k)) (fst ` set ps)"
    and ok: "\<forall>k \<in> fst ` set ps. \<exists>v. bind_param E st (read_prop ps k) = Inr v"
  shows "\<exists>args.
     fst (create_object E name st) =
       invoke E f (read_cache E (store_cache E st name (JInst f None)) name) args \<and>
     (\<forall>k \<in> fst ` set ps. \<exists>m. array_index (parseInt k) = Some m \<and> m < length args \<and>
          bind_param E st (read_prop ps k) = Inr (args ! m)) \<and>
     (\<forall>k \<in> fst ` set ps. \<forall>k' \<in> fst ` set ps. \<forall>m n.
          parseInt k = Some (int m) \<and> parseInt k' = Some (int n) \<and> m < n \<longrightarrow>
          n < length args \<and> bind_param E st (read_prop ps k) = Inr (args ! m) \<and>
          bind_param E st (read_prop ps k') = Inr (args ! n)) \<and>
     (\<forall>ks. set ks = fst ` set ps \<longrightarrow> bind_params E st (JObj ps) ks [] = Inr args)"
proof -
  from argument_list_by_number [OF idx inj ok]
  obtain args where r: "argument_list E st (JObj ps) = Inr args"
    and one: "\<forall>k \<in> fst ` set ps. \<exists>m. array_index (parseInt k) = Some m \<and> m < length args \<and>
          bind_param E st (read_prop ps k) = Inr (args ! m)"
    and two: "\<forall>k \<in> fst ` set ps. \<forall>k' \<in> fst ` set ps. \<forall>m n.
          parseInt k = Some (int m) \<and> parseInt k' = Some (int n) \<and> m < n \<longrightarrow>
          n < length args \<and> bind_param E st (read_prop ps k) = Inr (args ! m) \<and>
          bind_param E st (read_prop ps k') = Inr (args ! n)"
    and three: "\<forall>ks. set ks = fst ` set ps \<longrightarrow> bind_params E st (JObj ps) ks [] = Inr args"
    by (elim exE conjE)
  from r slots have "argument_list E st (read_prop d ''params'') = Inr args" by simp
  from create_invokes [OF desc type fresh this] one two three
  show ?thesis by (intro exI [of _ args] conjI)
qed

theorem slots_bound_by_number_witness:
  "\<exists>args. fst (create_object sample_env ''objectA'' (one_object three_slots)) =
        invoke sample_env ''Service'' (JInst ''Service'' None) args \<and>
      args ! 1 = JStr ''one'' \<and> args ! 2 = JStr ''two'' \<and> args ! 10 = JStr ''ten'' \<and>
      bind_params sample_env (one_object three_slots) (JObj three_slots) [''1'', ''2'', ''10''] []
        = Inr args"
proof -
  let ?st = "one_object three_slots"
  have k: "fst ` set three_slots = {''2'', ''10'', ''1''}" by (simp add: three_slots_def)
  have a: "\<forall>k \<in> fst ` set three_slots. array_index (parseInt k) \<noteq> None"
    unfolding k by (simp add: slot_positions)
  have b: "inj_on (\<lambda>k. array_index (parseInt k)) (fst ` set three_slots)"
    unfolding k by (simp add: slot_positions)
  have v: "bind_param sample_env ?st (read_prop three_slots ''1'') = Inr (JStr ''one'')"
    "bind_param sample_env ?st (read_prop three_slots ''2'') = Inr (JStr ''two'')"
    "bind_param sample_env ?st (read_prop three_slots ''10'') = Inr (JStr ''ten'')"
    by code_simp+
  have c: "\<forall>k \<in> fst ` set three_slots. \<exists>v. bind_param sample_env ?st (read_prop three_slots k) = Inr v"
    unfolding k by (simp add: v)
  from slots_bound_by_number [OF one_object_reads(1-4) a b c]
  obtain args where r: "fst (create_object sample_env ''objectA'' ?st) =
        invoke sample_env ''Service'' (JInst ''Service'' None) args"
    and one: "\<forall>k \<in> fst ` set three_slots. \<exists>m. array_index (parseInt k) = Some m \<and> m < length args \<and>
          bind_param sample_env ?st (read_prop three_slots k) = Inr (args ! m)"
    and any: "\<forall>ks. set ks = fst ` set three_slots \<longrightarrow>
          bind_params sample_env ?st (JObj three_slots) ks [] = Inr args"
    unfolding one_object_reads(5) by (elim exE conjE)
  have "set [''1'', ''2'', ''10''] = fst ` set three_slots" unfolding k by auto
  with any have numeric: "bind_params sample_env ?st (JObj three_slots) [''1'', ''2'', ''10''] [] = Inr args"
    by blast
  have "args ! 1 = JStr ''one''"
    using bspec [OF one, of "''1''"] by (simp add: k slot_positions v)
  moreover have "args ! 2 = JStr ''two''"
    using bspec [OF one, of "''2''"] by (simp add: k slot_positions v)
  moreover have "args ! 10 = JStr ''ten''"
    using bspec [OF one, of "''10''"] by (simp add: k slot_positions v)
  ultimately show ?thesis using r numeric by (intro exI [of _ args]) simp
qed

text \<open>
  C10. When the slot keys are the decimal numerals of a non-empty set \<open>S\<close> of array indices,
  line 197 applies the constructor to \<open>Max S + 1\<close> arguments: position \<open>k\<close> holds the value of
  slot \<open>k\<close> for \<open>k\<close> in \<open>S\<close> and \<open>undefined\<close> for every other position. For the keys \<open>1 .. n\<close>
  these are \<open>n + 1\<close> arguments, the first of which (position \<open>0\<close>) is \<open>undefined\<close>.
\<close>

theorem one_based_slots:
  assumes desc: "read_prop (this_config st) name = JObj d"
    and type: "namespace E (read_prop d ''type'') = Inr (JFun f)"
    and fresh: "object_create E f = Inr (JInst f None)"
    and slots: "read_prop d ''params'' = JObj ps"
    and keys: "fst ` set ps = show_nat ` S"
    and ne: "S \<noteq> {}"
    and bound: "\<forall>n\<in>S. n < 4294967295"
    and ok: "\<forall>n\<in>S. \<exists>v. bind_param E st (read_prop ps (show_nat n)) = Inr v"
  shows "\<exists>args.
     fst (create_object E name st) =
       invoke E f (read_cache E (store_cache E st name (JInst f None)) name) args \<and>
     length args = Max S + 1 \<and>
     (\<forall>j<length args. Inr (args ! j) =
        (if j \<in> S then bind_param E st (read_prop ps (show_nat j)) else Inr JUndefined)) \<and>
     (\<forall>n. S = {1..n} \<longrightarrow> length args = n + 1 \<and> args ! 0 = JUndefined)"
proof -
  from argument_list_one_based [OF keys ne bound ok]
  obtain args where r: "argument_list E st (JObj ps) = Inr args"
    and len: "length args = Max S + 1"
    and filled: "\<forall>j<length args. Inr (args ! j) =
        (if j \<in> S then bind_param E st (read_prop ps (show_nat j)) else Inr JUndefined)"
    and range: "\<forall>n. S = {1..n} \<longrightarrow> length args = n + 1 \<and> args ! 0 = JUndefined"
    by (elim exE conjE)
  from r slots have "argument_list E st (read_prop d ''params'') = Inr args" by simp
  from create_invokes [OF desc type fresh this] len filled range
  show ?thesis by (intro exI [of _ args] conjI)
qed

theorem one_based_slots_witness:
  "fst (create_object sample_env ''objectA'' (one_object gapped_slots)) =
     invoke sample_env ''Service'' (JInst ''Service'' None)
       [JUndefined, JStr ''one'', JUndefined, JUndefined]"
proof -
  let ?st = "one_object gapped_slots"
  have a: "fst ` set gapped_slots = show_nat ` {1, 3}" by (simp add: gapped_slots_def show_small)
  have b: "{1, 3 :: nat} \<noteq> {}" by simp
  have c: "\<forall>n\<in>{1, 3 :: nat}. n < 4294967295" by simp
  have v: "bind_param sample_env ?st (read_prop gapped_slots ''1'') = Inr (JStr ''one'')"
    "bind_param sample_env ?st (read_prop gapped_slots ''3'') = Inr JUndefined"
    by code_simp+
  have d: "\<forall>n\<in>{1, 3 :: nat}. \<exists>v. bind_param sample_env ?st (read_prop gapped_slots (show_nat n)) = Inr v"
    by (simp add: show_small v)
  from one_based_slots [OF one_object_reads(1-4) a b c d]
  obtain args where r: "fst (create_object sample_env ''objectA'' ?st) =
        invoke sample_env ''Service'' (JInst ''Service'' None) args"
    and len: "length args = Max {1, 3 :: nat} + 1"
    and filled: "\<forall>j<length args. Inr (args ! j) =
        (if j \<in> {1, 3 :: nat} then bind_param sample_env ?st (read_prop gapped_slots (show_nat j))
         else Inr JUndefined)"
    unfolding one_object_reads(5) by (elim exE conjE)
  from len have l: "length args = 4" by simp
  have "args ! 0 = JUndefined" using filled [rule_format, of 0] l by simp
  moreover have "args ! 1 = JStr ''one''" using filled [rule_format, of 1] l
    by (simp add: show_small v)
  moreover have "args ! 2 = JUndefined" using filled [rule_format, of 2] l by simp
  moreover have "args ! 3 = JUndefined" using filled [rule_format, of 3] l
    by (simp add: show_small v)
  ultimately have "args = [JUndefined, JStr ''one'', JUndefined, JUndefined]"
    using l by (simp add: list_eq_iff_nth_eq nth_Cons' less_Suc_eq numeral_eq_Suc)
  with r show ?thesis by simp
qed

text \<open>
  C9. A slot \<open>{ reference: target }\<close> binds whatever \<open>cache_[target]\<close> reads (line 172), and
  \<open>create_\<close> goes on to the constructor with that value at the position of the slot:
  nothing fails at this point. For a target that is absent from the cache the value is
  \<open>undefined\<close>, unless the target is the name of a property of \<open>Object.prototype\<close>, which the
  cache object inherits.
\<close>

theorem reference_bound:
  assumes desc: "read_prop (this_config st) name = JObj d"
    and type: "namespace E (read_prop d ''type'') = Inr (JFun f)"
    and fresh: "object_create E f = Inr (JInst f None)"
    and slots: "read_prop d ''params'' = JObj ps"
    and idx: "\<forall>k \<in> fst ` set ps. array_index (parseInt k) \<noteq> None"
    and inj: "inj_on (\<lambda>k. array_index (parseInt k)) (fst ` set ps)"
    and ok: "\<forall>k \<in> fst ` set ps. \<exists>v. bind_param E st (read_prop ps k) = Inr v"
    and slot: "map_of ps k = Some (JObj s)"
    and ref: "map_of s ''reference'' = Some r" "to_str E r = Inr target"
  shows "bind_param E st (JObj s) = Inr (read_cache E st target) \<and>
     (\<exists>args m.
        fst (create_object E name st) =
          invoke E f (read_cache E (store_cache E st name (JInst f None)) name) args \<and>
        array_index (parseInt k) = Some m \<and> m < length args \<and>
        args ! m = read_cache E st target \<and>
        (map_of (this_cache st) target = None \<and> cache_proto st = JObjectPrototype \<and>
         inherited target = None \<longrightarrow> args ! m = JUndefined))"
proof -
  have b: "bind_param E st (JObj s) = Inr (read_cache E st target)"
    using ref by (rule bind_reference)
  from slot have kin: "k \<in> fst ` set ps" by (auto dest: map_of_SomeD intro: rev_image_eqI)
  from slot have rk: "read_prop ps k = JObj s" by (simp add: read_prop_def)
  from argument_list_by_number [OF idx inj ok]
  obtain args where r: "argument_list E st (JObj ps) = Inr args"
    and one: "\<forall>k \<in> fst ` set ps. \<exists>m. array_index (parseInt k) = Some m \<and> m < length args \<and>
          bind_param E st (read_prop ps k) = Inr (args ! m)"
    by (elim exE conjE)
  from bspec [OF one kin] obtain m where m: "array_index (parseInt k) = Some m" "m < length args"
    and v: "bind_param E st (read_prop ps k) = Inr (args ! m)" by (elim exE conjE)
  from v rk b have val: "args ! m = read_cache E st target" by simp
  have absent: "map_of (this_cache st) target = None \<and> cache_proto st = JObjectPrototype \<and>
         inherited target = None \<longrightarrow> args ! m = JUndefined"
    using val by (simp add: read_cache_def)
  from r slots have "argument_list E st (read_prop d ''params'') = Inr args" by simp
  from create_invokes [OF desc type fresh this] m val absent b
  show ?thesis by (intro conjI exI [of _ args] exI [of _ m])
qed

theorem reference_bound_witness:
  "\<exists>args. fst (create_object sample_env ''objectA'' (one_object [(''1'', reference_to ''objectB'')])) =
        invoke sample_env ''Service'' (JInst ''Service'' None) args \<and>
      args ! 1 = JUndefined"
proof -
  let ?ps = "[(''1'', reference_to ''objectB'')]"
  let ?st = "one_object ?ps"
  have k: "fst ` set ?ps = {''1''}" by simp
  have a: "\<forall>k \<in> fst ` set ?ps. array_index (parseInt k) \<noteq> None"
    unfolding k by (simp add: slot_positions)
  have b: "inj_on (\<lambda>k. array_index (parseInt k)) (fst ` set ?ps)"
    unfolding k by simp
  have v: "bind_param sample_env ?st (read_prop ?ps ''1'') = Inr JUndefined" by code_simp
  have c: "\<forall>k \<in> fst ` set ?ps. \<exists>v. bind_param sample_env ?st (read_prop ?ps k) = Inr v"
    unfolding k by (simp add: v)
  have s: "map_of ?ps ''1'' = Some (JObj [(''reference'', JStr ''objectB'')])"
    by (simp add: reference_to_def)
  have r: "map_of [(''reference'', JStr ''objectB'')] ''reference'' = Some (JStr ''objectB'')" by simp
  have t: "to_str sample_env (JStr ''objectB'') = Inr ''objectB''" by (simp add: to_str_def)
  have absent: "map_of (this_cache ?st) ''objectB'' = None \<and> cache_proto ?st = JObjectPrototype \<and>
         inherited ''objectB'' = None"
    by (simp add: one_object_def DottiFactory_def inherited_def prototype_methods_def)
  from reference_bound [OF one_object_reads(1-4) a b c s r t]
  obtain args m where i: "fst (create_object sample_env ''objectA'' ?st) =
        invoke sample_env ''Service'' (JInst ''Service'' None) args"
    and m: "array_index (parseInt ''1'') = Some m"
    and u: "map_of (this_cache ?st) ''objectB'' = None \<and> cache_proto ?st = JObjectPrototype \<and>
         inherited ''objectB'' = None \<longrightarrow> args ! m = JUndefined"
    unfolding one_object_reads(5) by (elim exE conjE)
  from m have "m = 1" by (simp add: slot_positions)
  with u absent have "args ! 1 = JUndefined" by simp
  with i show ?thesis by (intro exI [of _ args]) simp
qed

theorem absent_reference_builds:
  "create_object sample_env ''objectA'' (one_object [(''1'', reference_to ''objectB'')]) =
   (None,
    \<lparr>this_config = [(''objectA'', descriptor ''app.Service'' [(''1'', reference_to ''objectB'')])],
     this_logger = [],
     this_cache = [(''objectA'', JInst ''Service'' (Some [JUndefined, JUndefined]))],
     cache_proto = JObjectPrototype\<rparr>)"
  by code_simp

section \<open>The cache write of \<open>create_\<close>\<close>

text \<open>
  C2. Building one object writes the cache at most once, under the name being built.
  A failure of the type lookup, of the parameter binding, of the function check or of
  \<open>Object.create\<close> leaves the cache as it was (the function check adds its message to the
  log). Once they have passed, line 196 stores the new object and line 197 runs the
  constructor on it: when the constructor throws, the entry written just before stays in
  the cache; when it returns, the cache holds the object it initialised. (The store adds
  or overwrites an entry for every name but \<open>__proto__\<close>.)
\<close>

theorem create_object_cache_write:
  assumes config: "read_prop (this_config st) name = config"
  shows "(\<forall>e. get_member E config ''type'' = Inl e \<longrightarrow> create_object E name st = (Some e, st)) \<and>
    (\<forall>tp. get_member E config ''type'' = Inr tp \<longrightarrow>
       (\<forall>e. namespace E tp = Inl e \<longrightarrow> create_object E name st = (Some e, st)) \<and>
       (\<forall>type. namespace E tp = Inr type \<longrightarrow>
          (\<forall>e. argument_list E st (member E config ''params'') = Inl e \<longrightarrow>
                create_object E name st = (Some e, st)) \<and>
          (\<forall>args. argument_list E st (member E config ''params'') = Inr args \<longrightarrow>
             ((\<forall>f. type \<noteq> JFun f) \<longrightarrow>
                fst (create_object E name st) \<noteq> None \<and>
                this_cache (snd (create_object E name st)) = this_cache st \<and>
                cache_proto (snd (create_object E name st)) = cache_proto st) \<and>
             (\<forall>f. type = JFun f \<longrightarrow>
                (\<forall>e. object_create E f = Inl e \<longrightarrow> create_object E name st = (Some e, st)) \<and>
                (object_create E f = Inr (JInst f None) \<and> name \<noteq> ''__proto__'' \<and>
                 cache_proto st = JObjectPrototype \<longrightarrow>
                   (\<forall>e. invoke E f (JInst f None) args = Some e \<longrightarrow>
                      create_object E name st =
                        (Some e,
                         st\<lparr>this_cache := AList.update name (JInst f None) (this_cache st)\<rparr>)) \<and>
                   (invoke E f (JInst f None) args = None \<longrightarrow>
                      create_object E name st =
                        (None,
                         st\<lparr>this_cache :=
                              AList.update name (JInst f (Some args)) (this_cache st)\<rparr>)))))))"
proof (intro conjI allI impI)
  fix e assume "get_member E config ''type'' = Inl e"
  then show "create_object E name st = (Some e, st)"
    by (simp add: create_object_def config)
next
  fix tp e assume "get_member E config ''type'' = Inr tp" "namespace E tp = Inl e"
  then show "create_object E name st = (Some e, st)"
    by (simp add: create_object_def config)
next
  fix tp type e
  assume "get_member E config ''type'' = Inr tp" "namespace E tp = Inr type"
    "argument_list E st (member E config ''params'') = Inl e"
  then show "create_object E name st = (Some e, st)"
    by (simp add: create_object_def config)
next
  fix tp type args
  assume a: "get_member E config ''type'' = Inr tp" "namespace E tp = Inr type"
    "argument_list E st (member E config ''params'') = Inr args" "\<forall>f. type \<noteq> JFun f"
  then have c: "create_object E name st =
      (case type_error_message E tp name type of
         Inl e \<Rightarrow> (Some e, st)
       | Inr message \<Rightarrow> (Some (TypeError message), st\<lparr>this_logger := this_logger st @ [message]\<rparr>))"
    by (cases type) (simp_all add: create_object_def config)
  show "fst (create_object E name st) \<noteq> None"
    unfolding c by (simp split: sum.splits)
  show "this_cache (snd (create_object E name st)) = this_cache st"
    unfolding c by (simp split: sum.splits)
  show "cache_proto (snd (create_object E name st)) = cache_proto st"
    unfolding c by (simp split: sum.splits)
next
  fix tp type args f e
  assume "get_member E config ''type'' = Inr tp" "namespace E tp = Inr type"
    "argument_list E st (member E config ''params'') = Inr args" "type = JFun f"
    "object_create E f = Inl e"
  then show "create_object E name st = (Some e, st)"
    by (simp add: create_object_def config)
next
  fix tp type args f e
  assume a: "get_member E config ''type'' = Inr tp" "namespace E tp = Inr type"
    "argument_list E st (member E config ''params'') = Inr args" "type = JFun f"
    and p: "object_create E f = Inr (JInst f None) \<and> name \<noteq> ''__proto__'' \<and>
      cache_proto st = JObjectPrototype"
    and i: "invoke E f (JInst f None) args = Some e"
  from p have n: "name \<noteq> ''__proto__''" and pl: "cache_proto st = JObjectPrototype" by simp_all
  have s: "store_cache E st name (JInst f None) =
      st\<lparr>this_cache := AList.update name (JInst f None) (this_cache st)\<rparr>"
    and r: "read_cache E (store_cache E st name (JInst f None)) name = JInst f None"
    by (rule store_then_read(1) [OF n pl], rule store_then_read(2) [OF n pl])
  from a p i show "create_object E name st =
      (Some e, st\<lparr>this_cache := AList.update name (JInst f None) (this_cache st)\<rparr>)"
    by (simp add: create_object_def config Let_def r) (simp add: s)
next
  fix tp type args f
  assume a: "get_member E config ''type'' = Inr tp" "namespace E tp = Inr type"
    "argument_list E st (member E config ''params'') = Inr args" "type = JFun f"
    and p: "object_create E f = Inr (JInst f None) \<and> name \<noteq> ''__proto__'' \<and>
      cache_proto st = JObjectPrototype"
    and i: "invoke E f (JInst f None) args = None"
  from p have n: "name \<noteq> ''__proto__''" and pl: "cache_proto st = JObjectPrototype" by simp_all
  have s: "store_cache E st name (JInst f (Some args)) =
      st\<lparr>this_cache := AList.update name (JInst f (Some args)) (this_cache st)\<rparr>"
    and r: "read_cache E (store_cache E st name (JInst f None)) name = JInst f None"
    by (rule store_then_read(1) [OF n pl], rule store_then_read(2) [OF n pl])
  from a p i show "create_object E name st =
      (None, st\<lparr>this_cache := AList.update name (JInst f (Some args)) (this_cache st)\<rparr>)"
    by (simp add: create_object_def config Let_def r) (simp add: s)
qed

theorem create_object_cache_write_witness:
  "create_object sample_env ''objectZ'' (DottiFactory [(''objectZ'', descriptor ''app.Broken'' [])]) =
     (Some (Thrown ''constructor failed''),
      (DottiFactory [(''objectZ'', descriptor ''app.Broken'' [])])
        \<lparr>this_cache := [(''objectZ'', JInst ''Broken'' None)]\<rparr>) \<and>
   create_object sample_env ''objectA'' (DottiFactory [(''objectA'', descriptor ''app.Service'' [])]) =
     (None,
      (DottiFactory [(''objectA'', descriptor ''app.Service'' [])])
        \<lparr>this_cache := [(''objectA'', JInst ''Service'' (Some []))]\<rparr>) \<and>
   fst (create_object sample_env ''objectA'' (DottiFactory [(''objectA'', descriptor ''app.Missing'' [])]))
     \<noteq> None \<and>
   this_cache (snd (create_object sample_env ''objectA''
      (DottiFactory [(''objectA'', descriptor ''app.Missing'' [])]))) = []"
proof -
  let ?z = "DottiFactory [(''objectZ'', descriptor ''app.Broken'' [])]"
  let ?a = "DottiFactory [(''objectA'', descriptor ''app.Service'' [])]"
  let ?m = "DottiFactory [(''objectA'', descriptor ''app.Missing'' [])]"
  have cz: "read_prop (this_config ?z) ''objectZ'' = descriptor ''app.Broken'' []"
    and ca: "read_prop (this_config ?a) ''objectA'' = descriptor ''app.Service'' []"
    and cm: "read_prop (this_config ?m) ''objectA'' = descriptor ''app.Missing'' []"
    by (simp_all add: DottiFactory_def read_prop_def)
  have t: "get_member sample_env (descriptor p []) ''type'' = Inr (JStr p)" for p
    by (simp add: descriptor_def read_prop_def)
  have n: "namespace sample_env (JStr ''app.Broken'') = Inr (JFun ''Broken'')"
    "namespace sample_env (JStr ''app.Service'') = Inr (JFun ''Service'')"
    "namespace sample_env (JStr ''app.Missing'') = Inr (JObj [])"
    by (simp_all add: sample_env_def)
  have l: "argument_list sample_env s (member sample_env (descriptor p []) ''params'') = Inr []" for s p
    by (simp add: descriptor_def read_prop_def argument_list_def)
  have i: "invoke sample_env ''Broken'' (JInst ''Broken'' None) [] = Some (Thrown ''constructor failed'')"
    "invoke sample_env ''Service'' (JInst ''Service'' None) [] = None"
    by (simp_all add: sample_env_def)
  have o: "object_create sample_env ''Broken'' = Inr (JInst ''Broken'' None)"
    "object_create sample_env ''Service'' = Inr (JInst ''Service'' None)"
    by (simp_all add: object_create_def sample_env_def)
  have plain: "cache_proto ?z = JObjectPrototype" "cache_proto ?a = JObjectPrototype"
    "this_cache ?z = []" "this_cache ?a = []" "this_cache ?m = []"
    by (simp_all add: DottiFactory_def)
  from create_object_cache_write [OF cz, of sample_env] t n(1) l i(1) o(1) plain(1,3)
  have one: "create_object sample_env ''objectZ'' ?z =
     (Some (Thrown ''constructor failed''), ?z\<lparr>this_cache := [(''objectZ'', JInst ''Broken'' None)]\<rparr>)"
    by simp
  from create_object_cache_write [OF ca, of sample_env] t n(2) l i(2) o(2) plain(2,4)
  have two: "create_object sample_env ''objectA'' ?a =
     (None, ?a\<lparr>this_cache := [(''objectA'', JInst ''Service'' (Some []))]\<rparr>)"
    by simp
  from create_object_cache_write [OF cm, of sample_env] t n(3) l plain(5)
  have three: "fst (create_object sample_env ''objectA'' ?m) \<noteq> None \<and>
     this_cache (snd (create_object sample_env ''objectA'' ?m)) = []"
    by simp
  from one two three show ?thesis by simp
qed

theorem constructor_throw_leaves_entry:
  "create_object sample_env ''objectZ'' (DottiFactory [(''objectZ'', descriptor ''app.Broken'' [])]) =
     (Some (Thrown ''constructor failed''),
      \<lparr>this_config = [(''objectZ'', descriptor ''app.Broken'' [])],
       this_logger = [],
       this_cache = [(''objectZ'', JInst ''Broken'' None)],
       cache_proto = JObjectPrototype\<rparr>) \<and>
   read_cache sample_env
     (snd (create_object sample_env ''objectZ''
        (DottiFactory [(''objectZ'', descriptor ''app.Broken'' [])]))) ''objectZ'' = JInst ''Broken'' None"
  by code_simp

section \<open>\<open>configure\<close>, \<open>set\<close> and the cache\<close>

text \<open>
  C6. \<open>configure\<close> rewrites the registry only. The cache is the same afterwards, and a name
  whose cache entry is truthy (every built object is) is still answered from the cache,
  whatever the merge did to its descriptor.
\<close>

theorem configure_keeps_cache:
  assumes "configure E partialRegistry st = (r, st')"
  shows "this_cache st' = this_cache st \<and> cache_proto st' = cache_proto st \<and>
         read_cache E st' name = read_cache E st name \<and>
         (truthy (read_cache E st name) \<longrightarrow>
            get E name st' = Some (Inr (read_cache E st name), st'))"
proof -
  from assms have c: "this_cache st' = this_cache st" "cache_proto st' = cache_proto st"
    by (auto simp: configure_def split: prod.splits)
  have "read_cache E st' name = read_cache E st name" by (simp only: read_cache_def c)
  with c show ?thesis using get_cached [of E st' name] by simp
qed

theorem configure_keeps_cache_witness:
  "this_config (snd (configure sample_env (JObj [(''X'', descriptor ''app.Broken'' [])]) built_factory))
     = [(''X'', descriptor ''app.Broken'' []), (''X'', descriptor ''app.Service'' [])] \<and>
   get sample_env ''X'' (snd (configure sample_env (JObj [(''X'', descriptor ''app.Broken'' [])]) built_factory))
     = Some (Inr (JInst ''Service'' (Some [])),
             snd (configure sample_env (JObj [(''X'', descriptor ''app.Broken'' [])]) built_factory))"
proof -
  let ?c = "configure sample_env (JObj [(''X'', descriptor ''app.Broken'' [])]) built_factory"
  have a: "?c = (fst ?c, snd ?c)" by simp
  have c: "read_cache sample_env built_factory ''X'' = JInst ''Service'' (Some [])"
    by (simp add: built_factory_def read_cache_def)
  have d: "this_config (snd ?c) = [(''X'', descriptor ''app.Broken'' []), (''X'', descriptor ''app.Service'' [])]"
    by (simp add: configure_def sample_env_def built_factory_def)
  from configure_keeps_cache [OF a, of "''X''"] c d show ?thesis by simp
qed







section \<open>The dependency sort inside \<open>get\<close>\<close>

subsection \<open>A finished traversal leaves a dependency order\<close>









subsection \<open>The traversal returns, and what its errors mean\<close>

lemma visit_total:
  "finite K \<Longrightarrow> (\<forall>n d ds. nxt n = Inr (d # ds) \<longrightarrow> n \<in> K) \<Longrightarrow>
     card (K - set stack) < k \<Longrightarrow> visit k nxt stack order n \<noteq> None"
  "finite K \<Longrightarrow> (\<forall>n d ds. nxt n = Inr (d # ds) \<longrightarrow> n \<in> K) \<Longrightarrow>
     card (K - set stack) < k \<Longrightarrow> visit_each k nxt stack order ns \<noteq> None"
proof (induction k nxt stack order n and k nxt stack order ns rule: visit_visit_each.induct)
  case (1 nxt stack order n)
  then show ?case by simp
next
  case (2 k nxt stack order n)
  show ?case
  proof (cases "n \<in> set stack \<or> n \<in> set order")
    case True
    then show ?thesis by auto
  next
    case False
    then have ns: "n \<notin> set stack" and no: "n \<notin> set order" by simp_all
    show ?thesis
    proof (cases "nxt n")
      case (Inl e)
      with ns no show ?thesis by simp
    next
      case (Inr deps)
      have "visit_each k nxt (n # stack) order deps \<noteq> None"
      proof (cases deps)
        case Nil
        then show ?thesis by simp
      next
        case (Cons d ds)
        with Inr "2.prems"(2) have nk: "n \<in> K" by blast
        with ns have m: "n \<in> K - set stack" by simp
        have f: "finite (K - set stack)" using "2.prems"(1) by simp
        have "K - set (n # stack) = (K - set stack) - {n}" by auto
        then have "card (K - set (n # stack)) < card (K - set stack)"
          using card_Diff1_less [OF f m] by simp
        with "2.prems"(3) have "card (K - set (n # stack)) < k" by simp
        from "2.IH" [OF ns no Inr "2.prems"(1,2) this] show ?thesis .
      qed
      with ns no Inr show ?thesis by (auto split: option.splits sum.splits)
    qed
  qed
next
  case (3 k nxt stack order)
  then show ?case by simp
next
  case (4 k nxt stack order d ds)
  from "4.IH"(1) [OF "4.prems"] have v: "visit k nxt stack order d \<noteq> None" .
  show ?case
  proof (cases "visit k nxt stack order d")
    case None
    with v show ?thesis by simp
  next
    case (Some r)
    show ?thesis
    proof (cases r)
      case (Inl e)
      with Some show ?thesis by simp
    next
      case (Inr o1)
      from "4.IH"(2) [OF Some Inr "4.prems"] Some Inr show ?thesis by simp
    qed
  qed
qed


subsection \<open>The callback and the references of the registry\<close>









lemma next_deps_configured:
  assumes "next_deps E st n = Inr (d # ds)"
  shows "n \<in> fst ` set (this_config st) \<union> set (''__proto__'' # prototype_methods)"
proof -
  from assms have "truthy (read_prop (this_config st) n)"
    by (auto simp: next_deps_def split: if_splits)
  then have "map_of (this_config st) n \<noteq> None \<or> inherited n \<noteq> None"
    by (auto simp: read_prop_def split: option.splits)
  then show ?thesis using inherited_names [of n] by (auto simp: map_of_eq_None_iff)
qed

lemma topology_returns:
  "topology (Suc (length (this_config st) + 12)) name (next_deps E st) \<noteq> None"
proof -
  let ?K = "fst ` set (this_config st) \<union> set (''__proto__'' # prototype_methods)"
  have f: "finite ?K" by simp
  have d: "\<forall>n d ds. next_deps E st n = Inr (d # ds) \<longrightarrow> n \<in> ?K"
    using next_deps_configured by blast
  have "card (fst ` set (this_config st)) \<le> length (this_config st)"
    by (rule order_trans [OF card_image_le]) (simp_all add: card_length)
  moreover have "card (set (''__proto__'' # prototype_methods)) \<le> 12"
    by (rule order_trans [OF card_length]) (simp add: prototype_methods_def)
  ultimately have "card ?K \<le> length (this_config st) + 12"
    by (intro order_trans [OF card_Un_le]) simp
  then have c: "card (?K - set []) < Suc (length (this_config st) + 12)" by simp
  show ?thesis unfolding topology_def by (rule visit_total(1) [OF f d c])
qed

lemma get_returns: "get E name st \<noteq> None"
  using topology_returns [of st name E]
  by (auto simp: get_def split: option.splits sum.splits prod.splits)












end
